theory Spec2Isabelle
  imports Complex_Main "HOL-Library.Multiset"
begin

section \<open>Data delivered by the quiz service\<close>

text \<open>
  The objects of \<^verbatim>\<open>src/src/App.jsx\<close> that the attempt page reads. Identifiers are the
  numeric ids of the service; a quiz carries its time limit in minutes and its questions in
  display order. The page dereferences \<^verbatim>\<open>quiz.questions[currentQuestionIndex]\<close> on every
  render, so a quiz that can be displayed has at least one question.
\<close>

datatype question_type = MULTIPLE_CHOICE | TRUE_FALSE | TEXT

record question =
  question_id :: nat
  questionText :: string
  qtype :: question_type

record quiz =
  title :: string
  timeLimitMinutes :: int
  questions :: "question list"

text \<open>The value stored per question in the \<^verbatim>\<open>answers\<close> object, and the entry sent for it.\<close>

record answer =
  selectedOptionId :: "nat option"
  textAnswer :: "string option"

record submission_answer = answer +
  questionId :: nat

record submit_body =
  body_quizAttemptId :: "nat option"
  body_answers :: "submission_answer list"
  body_timeTakenSeconds :: int

text \<open>
  An attempt as the service reports it: the result of a submission, a row of the attempt
  history and a row of a quiz's scoreboard carry the same fields.
\<close>

record attempt_row =
  userName :: string
  quizTitle :: string
  correctAnswers :: nat
  totalQuestions :: nat
  score :: int
  timeTakenSeconds :: int

text \<open>
  What \<^verbatim>\<open>init\<close> checks before fetching: the \<^verbatim>\<open>currentUser\<close> prop and the two globals
  \<^verbatim>\<open>window.currentQuizId\<close> and \<^verbatim>\<open>window.quizAttemptId\<close>. The test is JavaScript's
  \<^verbatim>\<open>!x\<close>, which holds for a missing value and for the number 0.
\<close>

record attempt_context =
  currentUser :: "string option"
  currentQuizId :: "nat option"
  quizAttemptId :: "nat option"

definition falsy :: "nat option \<Rightarrow> bool" where
  "falsy x = (case x of None \<Rightarrow> True | Some n \<Rightarrow> n = 0)"

definition context_missing :: "attempt_context \<Rightarrow> bool" where
  "context_missing c =
     (currentUser c = None \<or> falsy (currentQuizId c) \<or> falsy (quizAttemptId c))"

section \<open>The answers object\<close>

text \<open>
  \<^verbatim>\<open>answers\<close> is a JavaScript object keyed by question id, modelled as an association
  list. \<^verbatim>\<open>{ ...prev, [questionId]: v }\<close> copies the properties of \<^verbatim>\<open>prev\<close> and then
  defines \<^verbatim>\<open>questionId\<close>: an existing property is overwritten in its place, a new one
  is added last. \<^verbatim>\<open>Object.entries\<close> lists the keys that are array indices (the integers
  below \<open>2^32 - 1\<close>) in ascending order, and after them the other keys in the order in
  which they were added.
\<close>

type_synonym answers_obj = "(nat \<times> answer) list"

fun obj_put :: "nat \<Rightarrow> answer \<Rightarrow> answers_obj \<Rightarrow> answers_obj" where
  "obj_put k v [] = [(k, v)]"
| "obj_put k v ((k', v') # rest) =
     (if k' = k then (k, v) # rest else (k', v') # obj_put k v rest)"

definition array_index :: "nat \<Rightarrow> bool" where
  "array_index k = (int k < 4294967295)"

definition Object_entries :: "answers_obj \<Rightarrow> (nat \<times> answer) list" where
  "Object_entries obj =
     sort_key fst (filter (\<lambda>p. array_index (fst p)) obj)
       @ filter (\<lambda>p. \<not> array_index (fst p)) obj"

definition handleAnswerSelect ::
  "nat \<Rightarrow> nat option \<Rightarrow> string option \<Rightarrow> answers_obj \<Rightarrow> answers_obj" where
  "handleAnswerSelect qid opt ta prev =
     obj_put qid \<lparr>selectedOptionId = opt, textAnswer = ta\<rparr> prev"

definition submissionAnswers :: "answers_obj \<Rightarrow> submission_answer list" where
  "submissionAnswers obj =
     map (\<lambda>(qId, ans). \<lparr>selectedOptionId = selectedOptionId ans,
                         textAnswer = textAnswer ans,
                         questionId = qId\<rparr>) (Object_entries obj)"

section \<open>The attempt page as a state machine\<close>

text \<open>
  \<^verbatim>\<open>QuizAttempt\<close> keeps five \<^verbatim>\<open>useState\<close> cells. Around them the state records what the
  page does to its surroundings: whether the timer made by \<^verbatim>\<open>setInterval\<close> is still
  installed, whether the quiz request of \<^verbatim>\<open>init\<close> is still pending, the target of the last
  \<^verbatim>\<open>navigateTo\<close> (the page is unmounted from then on, and the effect's cleanup clears the
  timer), every body posted to \<^verbatim>\<open>/api/quiz/submit\<close>, the number of posts whose response has
  not arrived, every \<^verbatim>\<open>alert\<close>, and \<^verbatim>\<open>window.quizResult\<close>. The counter \<open>expired\<close> is
  not in the source: it counts how often the timer callback took its expiry branch.
  A state updater runs once per call, as React runs it outside its development-only
  strict mode.
\<close>

datatype alert = TypeError_null_quiz | Error_message string

record attempt_state =
  quiz :: "quiz option"
  currentQuestionIndex :: int
  answers :: answers_obj
  timeRemaining :: "int option"
  submitting :: bool
  ctx :: attempt_context
  interval_live :: bool
  fetch_pending :: bool
  page :: "string option"
  posted :: "submit_body list"
  in_flight :: nat
  alerts :: "alert list"
  quizResult :: "attempt_row option"
  expired :: nat

text \<open>
  A function declared inside the component closes over the constants of the render that
  created it. \<^verbatim>\<open>handleSubmit\<close> reads four of them.
\<close>

record closure =
  cl_quiz :: "quiz option"
  cl_answers :: answers_obj
  cl_timeRemaining :: "int option"
  cl_submitting :: bool

text \<open>The \<^verbatim>\<open>handleSubmit\<close> of the render that shows state \<open>s\<close>: the submit button's handler.\<close>

definition render_closure :: "attempt_state \<Rightarrow> closure" where
  "render_closure s =
     \<lparr>cl_quiz = quiz s, cl_answers = answers s,
      cl_timeRemaining = timeRemaining s, cl_submitting = submitting s\<rparr>"

text \<open>
  The effect (lines 625 to 648) has the dependency list \<^verbatim>\<open>[]\<close>: it runs once, after the
  first render, and the timer callback it installs calls the \<^verbatim>\<open>handleSubmit\<close> of that
  render for as long as the timer lives. The constants of that render are the initial
  values of the \<^verbatim>\<open>useState\<close> cells (lines 619 to 623): no quiz, no answers, a null
  remaining time, and \<^verbatim>\<open>submitting\<close> false.
\<close>

definition mount_closure :: closure where
  "mount_closure =
     \<lparr>cl_quiz = None, cl_answers = [], cl_timeRemaining = None, cl_submitting = False\<rparr>"

text \<open>
  \<^verbatim>\<open>handleSubmit\<close> (lines 660 to 691) up to its first \<^verbatim>\<open>await\<close>. With the guard open it
  sets the flag and enters the \<^verbatim>\<open>try\<close> block. \<^verbatim>\<open>quiz.timeLimitMinutes\<close> on a null quiz
  throws a TypeError before anything is sent, which the \<^verbatim>\<open>catch\<close> turns into an alert;
  the statement after the block then resets the flag. Otherwise the body is posted and the
  function waits for the response. \<^verbatim>\<open>Math.ceil\<close> is the identity on integers, and a
  null \<^verbatim>\<open>timeRemaining\<close> subtracts as 0.
\<close>

definition num :: "int option \<Rightarrow> int" where
  "num v = (case v of None \<Rightarrow> 0 | Some n \<Rightarrow> n)"

definition handleSubmit :: "closure \<Rightarrow> attempt_state \<Rightarrow> attempt_state" where
  "handleSubmit c s =
     (if cl_submitting c then s
      else (case cl_quiz c of
              None \<Rightarrow> s\<lparr>submitting := False, alerts := alerts s @ [TypeError_null_quiz]\<rparr>
            | Some q \<Rightarrow>
                s\<lparr>submitting := True,
                  posted := posted s @
                    [\<lparr>body_quizAttemptId = quizAttemptId (ctx s),
                      body_answers = submissionAnswers (cl_answers c),
                      body_timeTakenSeconds = timeLimitMinutes q * 60 - num (cl_timeRemaining c)\<rparr>],
                  in_flight := Suc (in_flight s)\<rparr>))"

text \<open>The updater passed to \<^verbatim>\<open>setTimeRemaining\<close> by the timer callback, with its side effects.\<close>

definition positive :: "int option \<Rightarrow> bool" where
  "positive prev = (case prev of None \<Rightarrow> False | Some n \<Rightarrow> 0 < n)"

definition tick :: "attempt_state \<Rightarrow> attempt_state" where
  "tick s =
     (if positive (timeRemaining s) then s\<lparr>timeRemaining := Some (num (timeRemaining s) - 1)\<rparr>
      else (handleSubmit mount_closure s)
             \<lparr>interval_live := False, timeRemaining := Some 0, expired := Suc (expired s)\<rparr>)"

text \<open>
  The state after the first render and its effect. \<^verbatim>\<open>init\<close> navigates to the quiz list
  when the context is missing and otherwise requests the quiz; the timer is installed in
  both cases, and cleared at once by the unmount that the navigation causes.
\<close>

definition navigateTo :: "string \<Rightarrow> attempt_state \<Rightarrow> attempt_state" where
  "navigateTo target s = s\<lparr>page := Some target, interval_live := False\<rparr>"

definition initial :: "attempt_context \<Rightarrow> attempt_state" where
  "initial c =
     \<lparr>quiz = None, currentQuestionIndex = 0, answers = [], timeRemaining = None,
      submitting = False, ctx = c, interval_live = False, fetch_pending = False,
      page = None, posted = [], in_flight = 0, alerts = [], quizResult = None, expired = 0\<rparr>"

definition mount :: "attempt_context \<Rightarrow> attempt_state" where
  "mount c =
     (if context_missing c then navigateTo ''quiz'' ((initial c)\<lparr>interval_live := True\<rparr>)
      else (initial c)\<lparr>fetch_pending := True, interval_live := True\<rparr>)"

text \<open>
  Everything that can happen to a mounted page. The buttons and inputs exist only once the
  quiz is shown. Previous is disabled at index 0; at the last index the Submit button,
  disabled while \<^verbatim>\<open>submitting\<close>, stands in the place of Next. The response to a post
  resumes \<^verbatim>\<open>handleSubmit\<close> after its \<^verbatim>\<open>await\<close>: a good response stores the result and
  navigates to the user panel, a response that is not ok throws
  \<^verbatim>\<open>Error('Failed to submit quiz')\<close>, a failed request rejects with a message of its own;
  both errors are alerted. The last statement of \<^verbatim>\<open>handleSubmit\<close> resets the flag on
  every path. A rejected quiz request ends \<^verbatim>\<open>init\<close> with nothing catching the error.
\<close>

datatype response = Ok_result attempt_row | Not_ok | Rejected string

datatype event =
    QuizLoaded quiz
  | QuizLoadFailed
  | Tick
  | ClickPrevious
  | ClickNext
  | ClickSubmit
  | AnswerSelect nat "nat option" "string option"
  | SubmitResponse response

definition shown :: "attempt_state \<Rightarrow> bool" where
  "shown s = (page s = None \<and> quiz s \<noteq> None)"

definition total :: "attempt_state \<Rightarrow> int" where
  "total s = (case quiz s of None \<Rightarrow> 0 | Some q \<Rightarrow> int (length (questions q)))"

definition resume :: "response \<Rightarrow> attempt_state \<Rightarrow> attempt_state" where
  "resume r s =
     (case r of
        Ok_result res \<Rightarrow> (navigateTo ''user-panel'' (s\<lparr>quizResult := Some res\<rparr>))\<lparr>submitting := False\<rparr>
      | Not_ok \<Rightarrow> s\<lparr>alerts := alerts s @ [Error_message ''Failed to submit quiz''],
                    submitting := False\<rparr>
      | Rejected msg \<Rightarrow> s\<lparr>alerts := alerts s @ [Error_message msg], submitting := False\<rparr>)"

fun step :: "attempt_state \<Rightarrow> event \<Rightarrow> attempt_state" where
  "step s (QuizLoaded q) =
     (if fetch_pending s
      then s\<lparr>quiz := Some q, timeRemaining := Some (timeLimitMinutes q * 60),
             fetch_pending := False\<rparr>
      else s)"
| "step s QuizLoadFailed = (if fetch_pending s then s\<lparr>fetch_pending := False\<rparr> else s)"
| "step s Tick = (if interval_live s then tick s else s)"
| "step s ClickPrevious =
     (if shown s \<and> currentQuestionIndex s \<noteq> 0
      then s\<lparr>currentQuestionIndex := currentQuestionIndex s - 1\<rparr> else s)"
| "step s ClickNext =
     (if shown s \<and> currentQuestionIndex s + 1 \<noteq> total s
      then s\<lparr>currentQuestionIndex := currentQuestionIndex s + 1\<rparr> else s)"
| "step s ClickSubmit =
     (if shown s \<and> currentQuestionIndex s + 1 = total s \<and> \<not> submitting s
      then handleSubmit (render_closure s) s else s)"
| "step s (AnswerSelect qid opt ta) =
     (if shown s then s\<lparr>answers := handleAnswerSelect qid opt ta (answers s)\<rparr> else s)"
| "step s (SubmitResponse r) =
     (if 0 < in_flight s then resume r (s\<lparr>in_flight := in_flight s - 1\<rparr>) else s)"

definition run :: "attempt_state \<Rightarrow> event list \<Rightarrow> attempt_state" where
  "run s es = foldl step s es"

section \<open>Score display\<close>

text \<open>
  JavaScript numbers are IEEE 754 double-precision floats, and \<^verbatim>\<open>/\<close> and \<^verbatim>\<open>*\<close> return
  the double nearest to the exact result, ties going to the even significand. A finite
  double in the normal range is \<open>m * 2^e\<close> with \<open>2^52 \<le> |m| < 2^53\<close>, so rounding a
  rational \<open>x\<close> means scaling it into that range by its binade (the \<open>k\<close> with
  \<open>2^k \<le> |x| < 2^(k+1)\<close>), rounding to an integer, and scaling back. Overflow and
  subnormal results are not modelled: the operands here are question counts.
\<close>

definition round_half_even :: "rat \<Rightarrow> int" where
  "round_half_even x =
     (let f = \<lfloor>x\<rfloor>; r = x - of_int f
      in if r < 1 / 2 then f else if 1 / 2 < r then f + 1 else if even f then f else f + 1)"

function bit_length :: "int \<Rightarrow> int" where
  "bit_length a = (if 0 < a then bit_length (a div 2) + 1 else 0)"
  by pat_completeness auto
termination
  by (relation "measure nat") auto

definition binade :: "rat \<Rightarrow> int" where
  "binade x =
     (let (a, b) = quotient_of \<bar>x\<bar>;
          k = bit_length a - bit_length b
      in if 2 powi k \<le> \<bar>x\<bar> then k else k - 1)"

definition double :: "rat \<Rightarrow> rat" where
  "double x =
     (if x = 0 then 0
      else let e = binade x - 52 in of_int (round_half_even (x / 2 powi e)) * 2 powi e)"

definition js_div :: "rat \<Rightarrow> rat \<Rightarrow> rat" where
  "js_div a b = double (a / b)"

definition js_mul :: "rat \<Rightarrow> rat \<Rightarrow> rat" where
  "js_mul a b = double (a * b)"

text \<open>\<^verbatim>\<open>Math.round\<close> returns the nearest integer, the larger one at a tie.\<close>

definition Math_round :: "rat \<Rightarrow> int" where
  "Math_round x = \<lfloor>x + 1 / 2\<rfloor>"

text \<open>
  \<^verbatim>\<open>Math.round(attempt.correctAnswers / attempt.totalQuestions * 100)\<close>, the expression of
  \<^verbatim>\<open>getScoreCard\<close> and of the admin results table. Division by zero gives \<^verbatim>\<open>NaN\<close> or
  \<^verbatim>\<open>Infinity\<close>, which is no integer: \<open>None\<close>.
\<close>

definition percentage :: "nat \<Rightarrow> nat \<Rightarrow> int option" where
  "percentage c n =
     (if n = 0 then None
      else Some (Math_round (js_mul (js_div (of_nat c) (of_nat n)) 100)))"

definition incorrect :: "nat \<Rightarrow> nat \<Rightarrow> int" where
  "incorrect c n = int n - int c"

record score_card =
  card_percentage :: "int option"
  card_correct :: nat
  card_incorrect :: int

definition getScoreCard :: "attempt_row \<Rightarrow> score_card" where
  "getScoreCard attempt =
     \<lparr>card_percentage = percentage (correctAnswers attempt) (totalQuestions attempt),
      card_correct = correctAnswers attempt,
      card_incorrect = incorrect (correctAnswers attempt) (totalQuestions attempt)\<rparr>"

text \<open>The percentage as the specification words it: round-half-up of the exact quotient.\<close>

definition spec_percentage :: "nat \<Rightarrow> nat \<Rightarrow> int" where
  "spec_percentage c n = \<lfloor>(of_nat c / of_nat n) * (100 :: rat) + 1 / 2\<rfloor>"

section \<open>Leaderboard and results table\<close>

text \<open>
  The leaderboard of \<^verbatim>\<open>QuizList\<close> is \<^verbatim>\<open>scoreboardData.map((a, index) => ...)\<close> over the
  array as \<^verbatim>\<open>showScoreboard\<close> stored it: each row shows \<^verbatim>\<open>index + 1\<close>, the name, the
  counts and \<^verbatim>\<open>a.score\<close>.
\<close>

record leaderboard_item =
  rank :: nat
  playerName :: string
  playerCorrect :: nat
  playerTotal :: nat
  playerScore :: int

definition leaderboard :: "attempt_row list \<Rightarrow> leaderboard_item list" where
  "leaderboard scoreboardData =
     map (\<lambda>(index, a). \<lparr>rank = index + 1, playerName = userName a,
                           playerCorrect = correctAnswers a, playerTotal = totalQuestions a,
                           playerScore = score a\<rparr>)
         (enumerate 0 scoreboardData)"

text \<open>
  \<^verbatim>\<open>Array.prototype.sort\<close> with a comparator is a stable sort: \<open>x\<close> goes before \<open>y\<close>
  when \<^verbatim>\<open>cmp(x, y)\<close> is negative, and elements that compare equal keep their order.
  \<^verbatim>\<open>showResults\<close> of the admin panel sorts the attempts it fetched with
  \<^verbatim>\<open>(a, b) => b.correctAnswers - a.correctAnswers\<close>.
\<close>

fun insert_by :: "('a \<Rightarrow> 'a \<Rightarrow> int) \<Rightarrow> 'a \<Rightarrow> 'a list \<Rightarrow> 'a list" where
  "insert_by cmp x [] = [x]"
| "insert_by cmp x (y # ys) =
     (if cmp x y \<le> 0 then x # y # ys else y # insert_by cmp x ys)"

definition Array_sort :: "('a \<Rightarrow> 'a \<Rightarrow> int) \<Rightarrow> 'a list \<Rightarrow> 'a list" where
  "Array_sort cmp xs = foldr (insert_by cmp) xs []"

definition showResults :: "attempt_row list \<Rightarrow> attempt_row list" where
  "showResults data = Array_sort (\<lambda>a b. int (correctAnswers b) - int (correctAnswers a)) data"

section \<open>Properties to be stated\<close>

text \<open>
  A quiz event is acceptable when the quiz it delivers has a question to show. The index
  is in range when it addresses one of the questions of the loaded quiz, and is still 0
  while no quiz is loaded.
\<close>

definition quiz_ok :: "event \<Rightarrow> bool" where
  "quiz_ok e = (case e of QuizLoaded q \<Rightarrow> questions q \<noteq> [] | _ \<Rightarrow> True)"

definition index_in_range :: "attempt_state \<Rightarrow> bool" where
  "index_in_range s =
     (case quiz s of
        None \<Rightarrow> currentQuestionIndex s = 0
      | Some q \<Rightarrow> 0 \<le> currentQuestionIndex s \<and>
                  currentQuestionIndex s \<le> int (length (questions q)) - 1)"

definition nav_inv :: "attempt_state \<Rightarrow> bool" where
  "nav_inv s = (index_in_range s \<and> (if fetch_pending s then quiz s = None else True))"

text \<open>
  A sequence of calls \<^verbatim>\<open>handleAnswerSelect(questionId, selectedOptionId, textAnswer)\<close>,
  applied to the empty object the page starts with, and the answer that the last call for
  a question gave.
\<close>

type_synonym selection = "nat \<times> nat option \<times> string option"

definition select_from :: "answers_obj \<Rightarrow> selection list \<Rightarrow> answers_obj" where
  "select_from a sels = foldl (\<lambda>a (q, opt, ta). handleAnswerSelect q opt ta a) a sels"

definition select_all :: "selection list \<Rightarrow> answers_obj" where
  "select_all sels = select_from [] sels"

fun last_selected :: "nat \<Rightarrow> selection list \<Rightarrow> answer option" where
  "last_selected q [] = None"
| "last_selected q ((q', opt, ta) # rest) =
     (case last_selected q rest of
        Some v \<Rightarrow> Some v
      | None \<Rightarrow> if q' = q then Some \<lparr>selectedOptionId = opt, textAnswer = ta\<rparr> else None)"

text \<open>
  The Submit button is on screen when the quiz is shown at its last question, and can be
  pressed when \<^verbatim>\<open>submitting\<close> is false as well.
\<close>

definition submit_shown :: "attempt_state \<Rightarrow> bool" where
  "submit_shown s = (shown s \<and> currentQuestionIndex s + 1 = total s)"

definition submit_enabled :: "attempt_state \<Rightarrow> bool" where
  "submit_enabled s = (submit_shown s \<and> \<not> submitting s)"

text \<open>The state in which a failed quiz request leaves the page, and stays.\<close>

definition stuck_loading :: "attempt_state \<Rightarrow> bool" where
  "stuck_loading s =
     (quiz s = None \<and> \<not> fetch_pending s \<and> in_flight s = 0 \<and> page s = None)"

section \<open>Example data\<close>

text \<open>
  A signed-in user with an attempt in progress, a one-minute quiz of one true/false
  question, and a scoreboard whose scores arrive as 80, 95, 95, 60.
\<close>

definition ctx1 :: attempt_context where
  "ctx1 = \<lparr>currentUser = Some ''token'', currentQuizId = Some 7, quizAttemptId = Some 42\<rparr>"

definition quiz1 :: quiz where
  "quiz1 =
     \<lparr>title = ''Capitals'', timeLimitMinutes = 1,
      questions = [\<lparr>question_id = 5, questionText = ''Paris is in France'',
                    qtype = TRUE_FALSE\<rparr>]\<rparr>"

definition quiz3 :: quiz where
  "quiz3 =
     \<lparr>title = ''Rivers'', timeLimitMinutes = 2,
      questions = [\<lparr>question_id = 1, questionText = ''Longest river'', qtype = TEXT\<rparr>,
                   \<lparr>question_id = 2, questionText = ''The Nile is in Africa'',
                    qtype = TRUE_FALSE\<rparr>,
                   \<lparr>question_id = 3, questionText = ''Which one is in Asia'',
                    qtype = MULTIPLE_CHOICE\<rparr>]\<rparr>"

definition entry :: "string \<Rightarrow> nat \<Rightarrow> nat \<Rightarrow> int \<Rightarrow> attempt_row" where
  "entry name c n sc =
     \<lparr>userName = name, quizTitle = ''Capitals'', correctAnswers = c, totalQuestions = n,
      score = sc, timeTakenSeconds = 30\<rparr>"

definition scoreboard1 :: "attempt_row list" where
  "scoreboard1 =
     [entry ''ann'' 16 20 80, entry ''bob'' 19 20 95, entry ''cy'' 19 20 95,
      entry ''dee'' 12 20 60]"

definition selections1 :: "selection list" where
  "selections1 = [(5, None, Some ''True''), (3, Some 2, None), (5, None, Some ''False'')]"

section \<open>Running the page\<close>

lemma run_Nil: "run s [] = s"
  by (simp add: run_def)

lemma run_Cons: "run s (e # es) = run (step s e) es"
  by (simp add: run_def)

lemma run_append: "run s (es @ fs) = run (run s es) fs"
  by (simp add: run_def)

lemma run_snoc: "run s (es @ [e]) = step (run s es) e"
  by (simp add: run_def)

lemma replicate_Suc_snoc: "replicate (Suc k) x = replicate k x @ [x]"
  by (simp add: replicate_append_same)

text \<open>What \<^verbatim>\<open>handleSubmit\<close>, the timer callback and a response leave alone.\<close>

lemma handleSubmit_frame:
  "quiz (handleSubmit c s) = quiz s"
  "currentQuestionIndex (handleSubmit c s) = currentQuestionIndex s"
  "fetch_pending (handleSubmit c s) = fetch_pending s"
  "interval_live (handleSubmit c s) = interval_live s"
  "page (handleSubmit c s) = page s"
  "timeRemaining (handleSubmit c s) = timeRemaining s"
  "expired (handleSubmit c s) = expired s"
  by (simp_all add: handleSubmit_def split: option.splits)

lemma handleSubmit_mount_closure:
  "handleSubmit mount_closure s = s\<lparr>submitting := False, alerts := alerts s @ [TypeError_null_quiz]\<rparr>"
  by (simp add: handleSubmit_def mount_closure_def)

lemma tick_frame:
  "quiz (tick s) = quiz s"
  "currentQuestionIndex (tick s) = currentQuestionIndex s"
  "fetch_pending (tick s) = fetch_pending s"
  "page (tick s) = page s"
  "posted (tick s) = posted s"
  "in_flight (tick s) = in_flight s"
  by (simp_all add: tick_def handleSubmit_mount_closure)

lemma resume_frame:
  "quiz (resume r s) = quiz s"
  "currentQuestionIndex (resume r s) = currentQuestionIndex s"
  "fetch_pending (resume r s) = fetch_pending s"
  "posted (resume r s) = posted s"
  by (simp_all add: resume_def navigateTo_def split: response.splits)

section \<open>The countdown\<close>

text \<open>
  While the remaining time is positive a tick takes one second off and nothing else. From
  \<open>T\<close> seconds the first \<open>T\<close> ticks therefore count down to 0 without expiring, tick
  \<open>T + 1\<close> finds 0, takes the expiry branch and clears the timer, and no tick comes after.
\<close>

lemma ticks_count_down:
  assumes "interval_live s" and "timeRemaining s = Some (int T)" and "k \<le> T"
  shows "run s (replicate k Tick) = s\<lparr>timeRemaining := Some (int T - int k)\<rparr>"
  using assms(3)
proof (induction k)
  case 0
  show ?case using assms(2) by (simp add: run_Nil)
next
  case (Suc k)
  then have ih: "run s (replicate k Tick) = s\<lparr>timeRemaining := Some (int T - int k)\<rparr>"
    by simp
  have pos: "0 < int T - int k" using Suc.prems by simp
  show ?case
    unfolding replicate_Suc_snoc run_snoc ih
    using assms(1) pos by (simp add: tick_def positive_def num_def algebra_simps)
qed

lemma ticks_expire:
  assumes "interval_live s" and "timeRemaining s = Some (int T)"
  shows "run s (replicate (Suc T) Tick) =
           (handleSubmit mount_closure s)
             \<lparr>interval_live := False, timeRemaining := Some 0, expired := Suc (expired s)\<rparr>"
proof -
  have "run s (replicate T Tick) = s\<lparr>timeRemaining := Some 0\<rparr>"
    using ticks_count_down [OF assms, of T] by simp
  then show ?thesis
    unfolding replicate_Suc_snoc run_snoc
    using assms(1) by (simp add: tick_def positive_def handleSubmit_def mount_closure_def)
qed

lemma ticks_after_clear:
  assumes "\<not> interval_live s"
  shows "run s (replicate j Tick) = s"
  using assms
  by (induction j) (simp_all add: run_Nil replicate_Suc_snoc run_snoc del: replicate_Suc)

lemma expiry_fires_once:
  assumes "interval_live s" and "timeRemaining s = Some (int T)"
  shows "expired (run s (replicate (Suc T + j) Tick)) = Suc (expired s)"
proof -
  let ?s = "run s (replicate (Suc T) Tick)"
  have d: "\<not> interval_live ?s" unfolding ticks_expire [OF assms] by simp
  have "run s (replicate (Suc T + j) Tick) = run ?s (replicate j Tick)"
    by (simp only: replicate_add run_append)
  also have "\<dots> = ?s" using ticks_after_clear [OF d] .
  finally show ?thesis unfolding ticks_expire [OF assms] by simp
qed

text \<open>
  C2 claims that a countdown started at \<open>T\<close> seconds fires its expiry after exactly \<open>T\<close>
  ticks, at the transition to 0. The callback tests the value it is given, not the value
  it returns: with the one-minute quiz the 60th tick brings the remaining time to 0 and
  fires nothing, the timer stays installed, and the expiry branch runs on the 61st tick.
  The other parts of the claim hold: one second per tick, never below 0, one expiry, no
  tick after it.
\<close>

theorem countdown_expires_one_tick_late:
  "let s60 = run (mount ctx1) (QuizLoaded quiz1 # replicate 60 Tick);
       s61 = run (mount ctx1) (QuizLoaded quiz1 # replicate 61 Tick)
   in timeRemaining s60 = Some 0 \<and> expired s60 = 0 \<and> interval_live s60 \<and> alerts s60 = []
      \<and> timeRemaining s61 = Some 0 \<and> expired s61 = 1 \<and> \<not> interval_live s61"
  by code_simp

text \<open>
  C10: a tick whose previous value is not a positive number, the initial null included,
  takes the expiry branch: it calls the submit handler of the first render, clears the
  timer and sets the remaining time to 0. That handler has no quiz, so its call ends in
  the alert of a TypeError and posts nothing. A page whose quiz has not arrived when the
  first tick comes is in exactly this situation.
\<close>

theorem tick_without_positive_time_expires:
  assumes "interval_live s" and "\<not> positive (timeRemaining s)"
  shows "step s Tick =
           (handleSubmit mount_closure s)
             \<lparr>interval_live := False, timeRemaining := Some 0, expired := Suc (expired s)\<rparr>
         \<and> \<not> interval_live (step s Tick)
         \<and> timeRemaining (step s Tick) = Some 0
         \<and> expired (step s Tick) = Suc (expired s)
         \<and> alerts (step s Tick) = alerts s @ [TypeError_null_quiz]
         \<and> posted (step s Tick) = posted s
         \<and> quiz (step s Tick) = quiz s"
  using assms by (simp add: tick_def handleSubmit_mount_closure)

theorem tick_without_positive_time_expires_witness:
  "interval_live (mount ctx1) \<and> timeRemaining (mount ctx1) = None \<and> quiz (mount ctx1) = None
   \<and> \<not> interval_live (step (mount ctx1) Tick)
   \<and> timeRemaining (step (mount ctx1) Tick) = Some 0
   \<and> expired (step (mount ctx1) Tick) = 1
   \<and> alerts (step (mount ctx1) Tick) = [TypeError_null_quiz]
   \<and> posted (step (mount ctx1) Tick) = []
   \<and> quiz (step (mount ctx1) Tick) = None"
proof -
  have a: "interval_live (mount ctx1)" by code_simp
  have b: "\<not> positive (timeRemaining (mount ctx1))" by code_simp
  have c: "timeRemaining (mount ctx1) = None" "quiz (mount ctx1) = None"
    "alerts (mount ctx1) = []" "posted (mount ctx1) = []" "expired (mount ctx1) = 0"
    by code_simp+
  note t = tick_without_positive_time_expires [OF a b, THEN conjunct2]
  show ?thesis using t a c by (simp del: step.simps)
qed

section \<open>Submission\<close>

text \<open>
  The timer's handler never posts and always leaves the flag reset, whatever the flag was;
  the button's handler does not touch the timer.
\<close>

lemma tick_never_posts: "posted (step s Tick) = posted s"
  by (simp add: tick_frame)

lemma expiry_resets_flag:
  assumes "interval_live s" and "\<not> positive (timeRemaining s)"
  shows "\<not> submitting (step s Tick)"
  using assms by (simp add: tick_def handleSubmit_mount_closure)

lemma click_submit_keeps_timer: "interval_live (step s ClickSubmit) = interval_live s"
  by (simp add: handleSubmit_frame)

text \<open>
  C1 claims that when the manual submit and the timer expiry both fire, the second is
  ignored by the guard and one request is issued. The timer calls the handler of the first
  render, whose \<^verbatim>\<open>submitting\<close> is the constant \<^verbatim>\<open>false\<close> and whose \<^verbatim>\<open>quiz\<close> is null. With
  the one-minute quiz, the user answers, lets the clock reach 00:00 and presses Submit:
  the request is posted and the flag is set. The next tick expires while the response is
  outstanding: the guard lets the handler in, the handler fails on the null quiz, alerts,
  and resets the flag. The Submit button is enabled again, and a second press posts the
  same attempt a second time.
\<close>

theorem timer_expiry_passes_guard_while_submitting:
  "let s = run (mount ctx1)
             (QuizLoaded quiz1 # AnswerSelect 5 None (Some ''True'') # replicate 60 Tick
                @ [ClickSubmit]);
       s' = step s Tick;
       s'' = step s' ClickSubmit
   in submitting s \<and> length (posted s) = 1 \<and> in_flight s = 1
      \<and> \<not> submitting s' \<and> alerts s' = [TypeError_null_quiz] \<and> length (posted s') = 1
      \<and> in_flight s' = 1
      \<and> length (posted s'') = 2 \<and> in_flight s'' = 2
      \<and> map body_quizAttemptId (posted s'') = [Some 42, Some 42]"
  by code_simp

text \<open>
  C3 claims that the timer is stopped on every way out of the in-progress state, so that no
  later tick can deliver an expiry to a session that is submitting. Only the expiry
  branch of the timer callback and the unmount clear the timer; \<^verbatim>\<open>handleSubmit\<close> does
  not. After a manual submit at 00:00 the timer is still installed while the request is
  outstanding, and the next tick delivers the expiry to the submitting session.
\<close>

theorem manual_submit_leaves_timer_running:
  "let s = run (mount ctx1) (QuizLoaded quiz1 # replicate 60 Tick @ [ClickSubmit]);
       s' = step s Tick
   in submitting s \<and> in_flight s = 1 \<and> interval_live s \<and> expired s = 0
      \<and> expired s' = 1 \<and> alerts s' = [TypeError_null_quiz] \<and> in_flight s' = 1"
  by code_simp

text \<open>
  C4 claims that after a failed submission the session stays in the submitting state with
  the guard still set. The last statement of \<^verbatim>\<open>handleSubmit\<close> resets the flag on every
  path, so the failure is alerted and the flag is cleared.
\<close>

theorem failed_submission_clears_flag_example:
  "\<not> submitting (run (mount ctx1) [QuizLoaded quiz1, ClickSubmit, SubmitResponse Not_ok])"
  by code_simp

lemma failed_response_frame:
  assumes "0 < in_flight s" and "r = Not_ok \<or> r = Rejected msg"
  shows "quiz (step s (SubmitResponse r)) = quiz s"
    and "currentQuestionIndex (step s (SubmitResponse r)) = currentQuestionIndex s"
    and "answers (step s (SubmitResponse r)) = answers s"
    and "timeRemaining (step s (SubmitResponse r)) = timeRemaining s"
    and "interval_live (step s (SubmitResponse r)) = interval_live s"
    and "page (step s (SubmitResponse r)) = page s"
    and "posted (step s (SubmitResponse r)) = posted s"
    and "in_flight (step s (SubmitResponse r)) = in_flight s - 1"
    and "\<not> submitting (step s (SubmitResponse r))"
  using assms by (auto simp: resume_def)

lemma click_enabled_submit_posts:
  assumes "submit_enabled s"
  shows "length (posted (step s ClickSubmit)) = Suc (length (posted s))
         \<and> submitting (step s ClickSubmit)
         \<and> in_flight (step s ClickSubmit) = Suc (in_flight s)"
proof -
  from assms obtain q where q: "quiz s = Some q"
    by (auto simp: submit_enabled_def submit_shown_def shown_def)
  from assms have g: "shown s" "currentQuestionIndex s + 1 = total s" "\<not> submitting s"
    by (simp_all add: submit_enabled_def submit_shown_def)
  show ?thesis using g q by (simp add: handleSubmit_def render_closure_def)
qed

text \<open>
  C4 as the code has it: every failed response, whether a status that is not ok or a
  rejected request, is alerted with its message, and the flag is reset. The failure
  handler does not navigate, posts nothing and leaves the quiz, the index, the answers
  and the timer as they are. Where the Submit button is on screen it is therefore enabled
  again, and pressing it posts the attempt once more.
\<close>

theorem failed_submission_alerts_and_resets_flag:
  assumes "0 < in_flight s"
  shows "(let s' = step s (SubmitResponse Not_ok)
          in alerts s' = alerts s @ [Error_message ''Failed to submit quiz'']
             \<and> \<not> submitting s' \<and> posted s' = posted s \<and> page s' = page s
             \<and> in_flight s' = in_flight s - 1
             \<and> quiz s' = quiz s \<and> currentQuestionIndex s' = currentQuestionIndex s
             \<and> answers s' = answers s \<and> interval_live s' = interval_live s
             \<and> timeRemaining s' = timeRemaining s
             \<and> (submit_shown s \<longrightarrow>
                   submit_enabled s'
                   \<and> length (posted (step s' ClickSubmit)) = Suc (length (posted s))
                   \<and> submitting (step s' ClickSubmit)))
       \<and> (let s' = step s (SubmitResponse (Rejected msg))
          in alerts s' = alerts s @ [Error_message msg]
             \<and> \<not> submitting s' \<and> posted s' = posted s \<and> page s' = page s
             \<and> in_flight s' = in_flight s - 1
             \<and> quiz s' = quiz s \<and> currentQuestionIndex s' = currentQuestionIndex s
             \<and> answers s' = answers s \<and> interval_live s' = interval_live s
             \<and> timeRemaining s' = timeRemaining s
             \<and> (submit_shown s \<longrightarrow>
                   submit_enabled s'
                   \<and> length (posted (step s' ClickSubmit)) = Suc (length (posted s))
                   \<and> submitting (step s' ClickSubmit)))"
proof -
  have retry: "submit_shown s \<longrightarrow>
      submit_enabled (step s (SubmitResponse r))
      \<and> length (posted (step (step s (SubmitResponse r)) ClickSubmit)) = Suc (length (posted s))
      \<and> submitting (step (step s (SubmitResponse r)) ClickSubmit)"
    if r: "r = Not_ok \<or> r = Rejected msg" for r
  proof
    assume sh: "submit_shown s"
    note f = failed_response_frame [OF assms r]
    have en: "submit_enabled (step s (SubmitResponse r))"
      using sh f(1,2,6,9)
      by (simp add: submit_enabled_def submit_shown_def shown_def total_def del: step.simps)
    from click_enabled_submit_posts [OF en] f(7)
    show "submit_enabled (step s (SubmitResponse r))
      \<and> length (posted (step (step s (SubmitResponse r)) ClickSubmit)) = Suc (length (posted s))
      \<and> submitting (step (step s (SubmitResponse r)) ClickSubmit)"
      using en by (simp del: step.simps)
  qed
  have a1: "alerts (step s (SubmitResponse Not_ok)) =
      alerts s @ [Error_message ''Failed to submit quiz'']"
    using assms by (simp add: resume_def)
  have a2: "alerts (step s (SubmitResponse (Rejected msg))) = alerts s @ [Error_message msg]"
    using assms by (simp add: resume_def)
  have r1: "submit_shown s \<longrightarrow>
      submit_enabled (step s (SubmitResponse Not_ok))
      \<and> length (posted (step (step s (SubmitResponse Not_ok)) ClickSubmit)) = Suc (length (posted s))
      \<and> submitting (step (step s (SubmitResponse Not_ok)) ClickSubmit)"
    by (rule retry) simp
  have r2: "submit_shown s \<longrightarrow>
      submit_enabled (step s (SubmitResponse (Rejected msg)))
      \<and> length (posted (step (step s (SubmitResponse (Rejected msg))) ClickSubmit)) =
          Suc (length (posted s))
      \<and> submitting (step (step s (SubmitResponse (Rejected msg))) ClickSubmit)"
    by (rule retry) simp
  show ?thesis
    unfolding Let_def
    using a1 a2 r1 r2
      failed_response_frame [OF assms, of Not_ok msg]
      failed_response_frame [OF assms, of "Rejected msg" msg]
    by (simp del: step.simps)
qed

theorem failed_submission_alerts_and_resets_flag_witness:
  "let s = run (mount ctx1) [QuizLoaded quiz1, ClickSubmit];
       s' = step s (SubmitResponse (Rejected ''Failed to fetch''))
   in 0 < in_flight s \<and> submitting s \<and> submit_shown s \<and> length (posted s) = 1
      \<and> alerts s' = [Error_message ''Failed to fetch''] \<and> \<not> submitting s'
      \<and> posted s' = posted s \<and> page s' = None \<and> in_flight s' = 0
      \<and> submit_enabled s'
      \<and> length (posted (step s' ClickSubmit)) = 2
      \<and> submitting (step s' ClickSubmit)"
proof -
  define s where "s = run (mount ctx1) [QuizLoaded quiz1, ClickSubmit]"
  have a: "0 < in_flight s" unfolding s_def by code_simp
  have b: "submitting s" "alerts s = []" "page s = None" "in_flight s = 1"
    "length (posted s) = 1" "submit_shown s"
    unfolding s_def by code_simp+
  note t = failed_submission_alerts_and_resets_flag
    [OF a, of "''Failed to fetch''", THEN conjunct2, unfolded Let_def]
  show ?thesis
    unfolding Let_def s_def [symmetric] using t a b by (simp del: step.simps)
qed

section \<open>Loading\<close>

text \<open>With the context missing the page leaves for the quiz list at once, timer cleared.\<close>

lemma missing_context_navigates:
  assumes "context_missing c"
  shows "page (mount c) = Some ''quiz'' \<and> \<not> interval_live (mount c) \<and> quiz (mount c) = None
         \<and> \<not> fetch_pending (mount c)"
  using assms by (simp add: mount_def navigateTo_def initial_def)

lemma no_fetch_no_quiz:
  assumes "quiz s = None" and "\<not> fetch_pending s"
  shows "quiz (run s es) = None \<and> \<not> fetch_pending (run s es)"
  using assms
proof (induction es arbitrary: s)
  case Nil
  then show ?case by (simp add: run_Nil)
next
  case (Cons e es)
  have "quiz (step s e) = None \<and> \<not> fetch_pending (step s e)"
    using Cons.prems
    by (cases e) (simp_all add: tick_frame handleSubmit_frame resume_frame shown_def)
  then show ?case unfolding run_Cons using Cons.IH by simp
qed

text \<open>
  After a failed quiz request the page never shows a quiz, and never leaves either: it
  stays on the loading screen with the timer running until the first tick expires it.
\<close>

lemma stuck_loading_step: "stuck_loading s \<Longrightarrow> stuck_loading (step s e)"
  by (cases e) (simp_all add: stuck_loading_def tick_frame shown_def)

lemma stuck_loading_run: "stuck_loading s \<Longrightarrow> stuck_loading (run s es)"
  by (induction es arbitrary: s) (simp_all add: run_Nil run_Cons stuck_loading_step)

lemma failed_fetch_stays_loading:
  assumes "\<not> context_missing c"
  shows "stuck_loading (run (mount c) (QuizLoadFailed # es))"
proof -
  have "stuck_loading (step (mount c) QuizLoadFailed)"
    using assms by (simp add: stuck_loading_def mount_def initial_def)
  then show ?thesis unfolding run_Cons by (rule stuck_loading_run)
qed

text \<open>
  C7 claims that a failed quiz fetch, like a missing context, takes the session to the
  aborted state with the caller navigating away. \<^verbatim>\<open>init\<close> navigates for the missing
  context only; its \<^verbatim>\<open>await apiFetch\<close> has no handler for a rejection. After the failure
  the page has not navigated, shows no quiz, and its timer runs; the first tick then
  expires into the submit handler, which alerts the TypeError of the null quiz.
\<close>

theorem failed_quiz_fetch_does_not_navigate:
  "let s = step (mount ctx1) QuizLoadFailed; s' = step s Tick
   in \<not> context_missing ctx1 \<and> page s = None \<and> quiz s = None \<and> interval_live s
      \<and> page s' = None \<and> quiz s' = None \<and> alerts s' = [TypeError_null_quiz]"
  by code_simp

section \<open>Navigation\<close>

lemma nav_inv_mount: "nav_inv (mount c)"
  by (simp add: nav_inv_def index_in_range_def mount_def initial_def navigateTo_def)

lemma nav_inv_cong:
  assumes "nav_inv s" and "quiz s' = quiz s"
    and "currentQuestionIndex s' = currentQuestionIndex s"
    and "fetch_pending s' = fetch_pending s"
  shows "nav_inv s'"
  using assms(1) unfolding nav_inv_def index_in_range_def assms(2-4) .

lemma nav_inv_step:
  assumes "nav_inv s" and "quiz_ok e"
  shows "nav_inv (step s e)"
proof (cases e)
  case (QuizLoaded q)
  with assms show ?thesis
    by (auto simp: nav_inv_def index_in_range_def quiz_ok_def split: option.splits if_splits)
next
  case QuizLoadFailed
  with assms(1) show ?thesis
    by (auto simp: nav_inv_def index_in_range_def split: option.splits if_splits)
next
  case Tick
  show ?thesis unfolding Tick
    by (rule nav_inv_cong [OF assms(1)]) (simp_all add: tick_frame)
next
  case ClickPrevious
  with assms(1) show ?thesis
    by (auto simp: nav_inv_def index_in_range_def shown_def split: option.splits if_splits)
next
  case ClickNext
  with assms(1) show ?thesis
    by (auto simp: nav_inv_def index_in_range_def shown_def total_def
             split: option.splits if_splits)
next
  case ClickSubmit
  show ?thesis unfolding ClickSubmit
    by (rule nav_inv_cong [OF assms(1)]) (simp_all add: handleSubmit_frame)
next
  case (AnswerSelect q opt ta)
  show ?thesis unfolding AnswerSelect
    by (rule nav_inv_cong [OF assms(1)]) simp_all
next
  case (SubmitResponse r)
  show ?thesis unfolding SubmitResponse
    by (rule nav_inv_cong [OF assms(1)]) (simp_all add: resume_frame)
qed

lemma nav_inv_run: "nav_inv s \<Longrightarrow> list_all quiz_ok es \<Longrightarrow> nav_inv (run s es)"
  by (induction es arbitrary: s) (simp_all add: run_Nil run_Cons nav_inv_step)

text \<open>
  C8: whatever happens to the page, the question index addresses a question of the loaded
  quiz. Previous at index 0 and Next at the last index change nothing: the first button
  is disabled there and the second is replaced by Submit.
\<close>

theorem navigation_stays_in_range:
  assumes "list_all quiz_ok es"
  shows "let s = run (mount c) es
         in index_in_range s
            \<and> index_in_range (step s ClickPrevious) \<and> index_in_range (step s ClickNext)
            \<and> (if currentQuestionIndex s = 0 then step s ClickPrevious = s else True)
            \<and> (if currentQuestionIndex s + 1 = total s then step s ClickNext = s else True)"
proof -
  have i: "nav_inv (run (mount c) es)"
    using nav_inv_run [OF nav_inv_mount assms] .
  have p: "nav_inv (step (run (mount c) es) ClickPrevious)"
    using nav_inv_step [OF i, of ClickPrevious] by (simp add: quiz_ok_def)
  have n: "nav_inv (step (run (mount c) es) ClickNext)"
    using nav_inv_step [OF i, of ClickNext] by (simp add: quiz_ok_def)
  show ?thesis using i p n by (simp add: Let_def nav_inv_def)
qed

theorem navigation_stays_in_range_witness:
  "list_all quiz_ok [QuizLoaded quiz3, ClickPrevious, ClickNext, ClickNext, ClickNext]
   \<and> currentQuestionIndex (run (mount ctx1) [QuizLoaded quiz3, ClickPrevious]) = 0
   \<and> currentQuestionIndex
        (run (mount ctx1) [QuizLoaded quiz3, ClickPrevious, ClickNext, ClickNext, ClickNext]) = 2
   \<and> index_in_range
        (run (mount ctx1) [QuizLoaded quiz3, ClickPrevious, ClickNext, ClickNext, ClickNext])"
proof -
  have a: "list_all quiz_ok [QuizLoaded quiz3, ClickPrevious, ClickNext, ClickNext, ClickNext]"
    by code_simp
  have b: "currentQuestionIndex (run (mount ctx1) [QuizLoaded quiz3, ClickPrevious]) = 0"
    by code_simp
  have c: "currentQuestionIndex
        (run (mount ctx1) [QuizLoaded quiz3, ClickPrevious, ClickNext, ClickNext, ClickNext]) = 2"
    by code_simp
  note t = navigation_stays_in_range [OF a, of ctx1, unfolded Let_def, THEN conjunct1]
  show ?thesis using a b c t by (simp only: simp_thms)
qed

section \<open>Answers\<close>

lemma map_of_obj_put: "map_of (obj_put k v a) = (map_of a)(k \<mapsto> v)"
  by (induction a) (auto simp: fun_eq_iff)

lemma keys_obj_put: "set (map fst (obj_put k v a)) = insert k (set (map fst a))"
  by (induction k v a rule: obj_put.induct) (simp_all add: insert_commute insert_absorb)

lemma distinct_obj_put: "distinct (map fst a) \<Longrightarrow> distinct (map fst (obj_put k v a))"
proof (induction a)
  case Nil
  then show ?case by simp
next
  case (Cons p a)
  obtain k' v' where p: "p = (k', v')" by (cases p)
  show ?case
  proof (cases "k' = k")
    case True
    with Cons.prems p show ?thesis by simp
  next
    case False
    have "k' \<notin> set (map fst (obj_put k v a))"
      using Cons.prems p False unfolding keys_obj_put by simp
    with Cons p False show ?thesis by simp
  qed
qed

lemma obj_put_twice: "obj_put k v2 (obj_put k v1 a) = obj_put k v2 a"
  by (induction k v1 a rule: obj_put.induct) simp_all

lemma obj_put_one_entry:
  "distinct (map fst a) \<Longrightarrow> length (filter (\<lambda>p. fst p = k) (obj_put k v a)) = 1"
proof (induction k v a rule: obj_put.induct)
  case (1 k v)
  show ?case by simp
next
  case (2 k v k' v' rest)
  show ?case
  proof (cases "k' = k")
    case True
    with "2.prems" have "k \<notin> fst ` set rest" by simp
    then have "filter (\<lambda>p. fst p = k) rest = []"
      by (auto simp: filter_empty_conv)
    with True show ?thesis by simp
  next
    case False
    with "2.IH" "2.prems" show ?thesis by simp
  qed
qed

lemma select_from_Nil: "select_from a [] = a"
  by (simp add: select_from_def)

lemma select_from_Cons:
  "select_from a ((q, opt, ta) # sels) = select_from (handleAnswerSelect q opt ta a) sels"
  by (simp add: select_from_def)

lemma distinct_select_from:
  "distinct (map fst a) \<Longrightarrow> distinct (map fst (select_from a sels))"
proof (induction sels arbitrary: a)
  case Nil
  then show ?case by (simp add: select_from_Nil)
next
  case (Cons x sels)
  obtain q opt ta where x: "x = (q, opt, ta)" by (cases x)
  show ?case unfolding x select_from_Cons
    by (rule Cons.IH) (simp add: handleAnswerSelect_def distinct_obj_put Cons.prems)
qed

lemma keys_select_from:
  "set (map fst (select_from a sels)) = set (map fst a) \<union> set (map fst sels)"
proof (induction sels arbitrary: a)
  case Nil
  then show ?case by (simp add: select_from_Nil)
next
  case (Cons x sels)
  obtain q opt ta where x: "x = (q, opt, ta)" by (cases x)
  show ?case unfolding x select_from_Cons Cons.IH
    using keys_obj_put [of q "\<lparr>selectedOptionId = opt, textAnswer = ta\<rparr>" a]
    by (simp add: handleAnswerSelect_def)
qed

lemma map_of_select_from:
  "map_of (select_from a sels) q =
     (case last_selected q sels of Some v \<Rightarrow> Some v | None \<Rightarrow> map_of a q)"
proof (induction sels arbitrary: a)
  case Nil
  then show ?case by (simp add: select_from_Nil)
next
  case (Cons x sels)
  obtain q' opt ta where x: "x = (q', opt, ta)" by (cases x)
  show ?case unfolding x select_from_Cons Cons.IH
    by (simp add: handleAnswerSelect_def map_of_obj_put split: option.splits)
qed

lemma map_insort_key: "map f (insort_key f x xs) = insort (f x) (map f xs)"
  by (induction xs) simp_all

lemma map_sort_key: "map f (sort_key f xs) = sort (map f xs)"
  by (induction xs) (simp_all add: map_insort_key)

lemma questionIds_submission:
  "map questionId (submissionAnswers a) = map fst (Object_entries a)"
  by (simp add: submissionAnswers_def case_prod_unfold comp_def)

lemma Object_entries_order:
  "map fst (Object_entries [(4294967296, v1), (7, v2), (4294967295, v3), (3, v4)]) =
     [3, 7, 4294967296, 4294967295]"
  by (simp add: Object_entries_def array_index_def)

lemma set_Object_entries: "set (Object_entries a) = set a"
  by (auto simp: Object_entries_def)

lemma distinct_Object_entries:
  assumes "distinct (map fst a)"
  shows "distinct (map fst (Object_entries a))"
proof -
  let ?lo = "filter (\<lambda>p. array_index (fst p)) a"
  let ?hi = "filter (\<lambda>p. \<not> array_index (fst p)) a"
  have lo: "distinct (map fst ?lo)" using assms by (rule distinct_map_filter)
  have hi: "distinct (map fst ?hi)" using assms by (rule distinct_map_filter)
  have "map fst (sort_key fst ?lo) = sort (map fst ?lo)" by (rule map_sort_key)
  then have slo: "distinct (map fst (sort_key fst ?lo))"
    and set_lo: "set (map fst (sort_key fst ?lo)) = set (map fst ?lo)"
    using lo by simp_all
  have "set (map fst ?lo) \<inter> set (map fst ?hi) = {}" by auto
  with slo hi set_lo show ?thesis by (simp add: Object_entries_def)
qed

lemma submission_entry_stored:
  assumes "distinct (map fst a)" and "e \<in> set (submissionAnswers a)"
  shows "map_of a (questionId e) =
           Some \<lparr>selectedOptionId = selectedOptionId e, textAnswer = textAnswer e\<rparr>"
proof -
  from assms(2) obtain k v where kv: "(k, v) \<in> set (Object_entries a)"
    and e: "e = \<lparr>selectedOptionId = selectedOptionId v, textAnswer = textAnswer v,
                  questionId = k\<rparr>"
    by (auto simp: submissionAnswers_def)
  have "(k, v) \<in> set a" using kv unfolding set_Object_entries .
  then have "map_of a k = Some v" using assms(1) by simp
  then show ?thesis unfolding e by simp
qed

text \<open>
  C9: after any sequence of answer selections the object holds one answer per question
  that was answered, the one selected last; the submission list has exactly one entry for
  each of these questions, carrying that answer's two fields, and none for any other
  question. Selecting twice for a question is the same as selecting the second time only.
\<close>

theorem answers_one_per_question_last_wins:
  "let a = select_all sels; sub = submissionAnswers a
   in distinct (map fst a)
      \<and> distinct (map questionId sub)
      \<and> set (map questionId sub) = set (map fst sels)
      \<and> length sub = card (set (map fst sels))
      \<and> (\<forall>e \<in> set sub.
            last_selected (questionId e) sels =
              Some \<lparr>selectedOptionId = selectedOptionId e, textAnswer = textAnswer e\<rparr>)
      \<and> handleAnswerSelect q o2 t2 (handleAnswerSelect q o1 t1 a) = handleAnswerSelect q o2 t2 a
      \<and> map_of (handleAnswerSelect q o2 t2 (handleAnswerSelect q o1 t1 a)) q =
            Some \<lparr>selectedOptionId = o2, textAnswer = t2\<rparr>
      \<and> length (filter (\<lambda>p. fst p = q) (handleAnswerSelect q o2 t2 (handleAnswerSelect q o1 t1 a))) = 1"
proof -
  define a where "a = select_all sels"
  define sub where "sub = submissionAnswers a"
  have d: "distinct (map fst a)"
    unfolding a_def select_all_def by (rule distinct_select_from) simp
  have ks: "set (map fst a) = set (map fst sels)"
    unfolding a_def select_all_def keys_select_from by simp
  have ids: "map questionId sub = map fst (Object_entries a)"
    unfolding sub_def by (rule questionIds_submission)
  have 1: "distinct (map questionId sub)"
    unfolding ids using d by (rule distinct_Object_entries)
  have "set (map fst (Object_entries a)) = set (map fst a)"
    by (simp add: set_Object_entries)
  then have 2: "set (map questionId sub) = set (map fst sels)" unfolding ids using ks by simp
  have "length sub = length (map questionId sub)" by simp
  also have "\<dots> = card (set (map questionId sub))" using distinct_card [OF 1] by simp
  finally have 3: "length sub = card (set (map fst sels))" unfolding 2 .
  have 4: "\<forall>e \<in> set sub. last_selected (questionId e) sels =
              Some \<lparr>selectedOptionId = selectedOptionId e, textAnswer = textAnswer e\<rparr>"
  proof
    fix e assume "e \<in> set sub"
    then have m: "map_of a (questionId e) =
        Some \<lparr>selectedOptionId = selectedOptionId e, textAnswer = textAnswer e\<rparr>"
      unfolding sub_def by (rule submission_entry_stored [OF d])
    have "map_of a (questionId e) =
        (case last_selected (questionId e) sels of Some v \<Rightarrow> Some v | None \<Rightarrow> None)"
      unfolding a_def select_all_def map_of_select_from by (simp split: option.splits)
    with m show "last_selected (questionId e) sels =
        Some \<lparr>selectedOptionId = selectedOptionId e, textAnswer = textAnswer e\<rparr>"
      by (simp split: option.splits)
  qed
  have 5: "handleAnswerSelect q o2 t2 (handleAnswerSelect q o1 t1 a) = handleAnswerSelect q o2 t2 a"
    by (simp add: handleAnswerSelect_def obj_put_twice)
  have 6: "map_of (handleAnswerSelect q o2 t2 (handleAnswerSelect q o1 t1 a)) q =
            Some \<lparr>selectedOptionId = o2, textAnswer = t2\<rparr>"
    by (simp add: handleAnswerSelect_def map_of_obj_put)
  have 7: "length (filter (\<lambda>p. fst p = q)
             (handleAnswerSelect q o2 t2 (handleAnswerSelect q o1 t1 a))) = 1"
  proof -
    have "length (filter (\<lambda>p. fst p = q) (handleAnswerSelect q o2 t2 a)) = 1"
      unfolding handleAnswerSelect_def by (rule obj_put_one_entry [OF d])
    then show ?thesis by (simp only: 5)
  qed
  show ?thesis
    unfolding Let_def a_def [symmetric] sub_def [symmetric]
    using d 1 2 3 4 5 6 7 by blast
qed

theorem answers_one_per_question_last_wins_witness:
  "submissionAnswers (select_all selections1) =
     [\<lparr>selectedOptionId = Some 2, textAnswer = None, questionId = 3\<rparr>,
      \<lparr>selectedOptionId = None, textAnswer = Some ''False'', questionId = 5\<rparr>]
   \<and> distinct (map questionId (submissionAnswers (select_all selections1)))
   \<and> set (map questionId (submissionAnswers (select_all selections1))) = set (map fst selections1)
   \<and> length (submissionAnswers (select_all selections1)) = card (set (map fst selections1))"
proof -
  have v: "submissionAnswers (select_all selections1) =
     [\<lparr>selectedOptionId = Some 2, textAnswer = None, questionId = 3\<rparr>,
      \<lparr>selectedOptionId = None, textAnswer = Some ''False'', questionId = 5\<rparr>]"
    by code_simp
  note t = answers_one_per_question_last_wins [of selections1 0 None None None None, unfolded Let_def]
  show ?thesis using v t by blast
qed

section \<open>Leaderboard\<close>

lemma leaderboard_ranks: "map rank (leaderboard d) = [1..<Suc (length d)]"
proof -
  have "map rank (leaderboard d) = map (Suc \<circ> fst) (enumerate 0 d)"
    by (simp add: leaderboard_def case_prod_unfold comp_def)
  also have "\<dots> = map Suc (map fst (enumerate 0 d))" by (simp only: map_map)
  also have "\<dots> = map Suc [0..<0 + length d]" by (simp only: map_fst_enumerate)
  also have "\<dots> = [1..<Suc (length d)]" by (simp add: map_Suc_upt)
  finally show ?thesis .
qed

lemma leaderboard_names: "map playerName (leaderboard d) = map userName d"
proof -
  have "map playerName (leaderboard d) = map (userName \<circ> snd) (enumerate 0 d)"
    by (simp add: leaderboard_def case_prod_unfold comp_def)
  also have "\<dots> = map userName (map snd (enumerate 0 d))" by (simp only: map_map)
  also have "\<dots> = map userName d" by (simp only: map_snd_enumerate)
  finally show ?thesis .
qed

lemma leaderboard_scores: "map playerScore (leaderboard d) = map score d"
proof -
  have "map playerScore (leaderboard d) = map (score \<circ> snd) (enumerate 0 d)"
    by (simp add: leaderboard_def case_prod_unfold comp_def)
  also have "\<dots> = map score (map snd (enumerate 0 d))" by (simp only: map_map)
  also have "\<dots> = map score d" by (simp only: map_snd_enumerate)
  finally show ?thesis .
qed

lemma insert_by_insort_key:
  "insert_by (\<lambda>a b. int (g b) - int (g a)) x ys = insort_key (\<lambda>a. - int (g a)) x ys"
  by (induction ys) simp_all

lemma showResults_sort_key:
  "showResults d = sort_key (\<lambda>a. - int (correctAnswers a)) d"
  by (induction d) (simp_all add: showResults_def Array_sort_def insert_by_insort_key)

text \<open>
  C5 claims that the leaderboard orders the entries by score, highest first. The
  leaderboard numbers the rows of the scoreboard in the order the service delivered them:
  scores arriving as 80, 95, 95, 60 are shown in that order, the entry with 80 as number 1.
\<close>

theorem leaderboard_keeps_delivered_order_example:
  "map (\<lambda>i. (rank i, playerName i, playerScore i)) (leaderboard scoreboard1) =
     [(1, ''ann'', 80), (2, ''bob'', 95), (3, ''cy'', 95), (4, ''dee'', 60)]
   \<and> map (\<lambda>i. (rank i, playerName i, playerScore i)) (leaderboard scoreboard1) \<noteq>
     [(1, ''bob'', 95), (2, ''cy'', 95), (3, ''ann'', 80), (4, ''dee'', 60)]"
  by code_simp

text \<open>
  C5 as the code has it: the leaderboard keeps the delivered order, numbers the rows
  1, 2, 3, ... and shows each entry's delivered score. The one sort in the program is that
  of the admin results: by the number of correct answers, highest first, a rearrangement
  of the fetched attempts in which attempts with equal counts keep their order.
\<close>

theorem leaderboard_numbers_delivered_order:
  "map rank (leaderboard d) = [1..<Suc (length d)]
   \<and> map playerName (leaderboard d) = map userName d
   \<and> map playerScore (leaderboard d) = map score d
   \<and> sorted_wrt (\<lambda>a b. correctAnswers b \<le> correctAnswers a) (showResults d)
   \<and> mset (showResults d) = mset d
   \<and> filter (\<lambda>a. correctAnswers a = k) (showResults d) = filter (\<lambda>a. correctAnswers a = k) d"
proof -
  let ?f = "\<lambda>a. - int (correctAnswers a)"
  have "sorted (map ?f (showResults d))"
    unfolding showResults_sort_key by (rule sorted_sort_key)
  then have s: "sorted_wrt (\<lambda>a b. correctAnswers b \<le> correctAnswers a) (showResults d)"
    by (simp add: sorted_map)
  have m: "mset (showResults d) = mset d"
    unfolding showResults_sort_key by simp
  have "filter (\<lambda>a. ?f a = - int k) (showResults d) = filter (\<lambda>a. ?f a = - int k) d"
    unfolding showResults_sort_key by (rule sort_key_stable)
  then have st: "filter (\<lambda>a. correctAnswers a = k) (showResults d) =
      filter (\<lambda>a. correctAnswers a = k) d"
    by simp
  show ?thesis using leaderboard_ranks leaderboard_names leaderboard_scores s m st by simp
qed

lemma showResults_example:
  "map userName (showResults scoreboard1) = [''bob'', ''cy'', ''ann'', ''dee'']"
  by code_simp

section \<open>Percentages\<close>

declare bit_length.simps [simp del]

lemma bit_length_bounds:
  "0 < a \<Longrightarrow>
     2 ^ nat (bit_length a - 1) \<le> a \<and> a < 2 ^ nat (bit_length a) \<and> 0 < bit_length a"
proof (induction a rule: bit_length.induct)
  case (1 a)
  show ?case
  proof (cases "a = 1")
    case True
    have "bit_length 1 = 1"
      by (simp add: bit_length.simps [of 1] bit_length.simps [of 0])
    with True show ?thesis by simp
  next
    case False
    with "1.prems" have h: "0 < a div 2" by simp
    from "1.IH" [OF "1.prems" h]
    have ih: "2 ^ nat (bit_length (a div 2) - 1) \<le> a div 2"
      "a div 2 < 2 ^ nat (bit_length (a div 2))" "0 < bit_length (a div 2)"
      by simp_all
    have e: "bit_length a = bit_length (a div 2) + 1"
      using "1.prems" by (simp add: bit_length.simps [of a])
    have n1: "nat (bit_length a - 1) = Suc (nat (bit_length (a div 2) - 1))"
      using ih(3) e by simp
    have n2: "nat (bit_length a) = Suc (nat (bit_length (a div 2)))"
      using ih(3) e by simp
    have lo: "2 * (a div 2) \<le> a" by simp
    have hi: "a < 2 * (a div 2 + 1)" by simp
    have "2 ^ nat (bit_length a - 1) \<le> a"
      unfolding n1 using ih(1) lo by simp
    moreover have "a < 2 ^ nat (bit_length a)"
      unfolding n2 using ih(2) hi by simp
    moreover have "0 < bit_length a" using e ih(3) by simp
    ultimately show ?thesis by simp
  qed
qed

lemma two_powi_int: "0 \<le> k \<Longrightarrow> (2 :: rat) powi k = of_int (2 ^ nat k)"
  by (simp add: power_int_def)

lemma two_powi_le_of_int:
  "0 \<le> k \<Longrightarrow> 2 ^ nat k \<le> a \<Longrightarrow> (2 :: rat) powi k \<le> of_int a"
  unfolding two_powi_int by (simp only: of_int_le_iff)

lemma of_int_less_two_powi:
  "0 \<le> k \<Longrightarrow> a < 2 ^ nat k \<Longrightarrow> of_int a < (2 :: rat) powi k"
  unfolding two_powi_int by (simp only: of_int_less_iff)

lemma powi_positive_nonzero:
  assumes "(2 :: rat) powi k \<le> \<bar>x\<bar>"
  shows "x \<noteq> 0"
proof
  assume "x = 0"
  with assms have "(2 :: rat) powi k \<le> 0" by simp
  moreover have "(0 :: rat) < 2 powi k" by simp
  ultimately show False by linarith
qed

text \<open>The binade is what its name says: the power of two at or below the magnitude.\<close>

lemma binade_range:
  assumes "x \<noteq> 0"
  shows "2 powi binade x \<le> \<bar>x\<bar> \<and> \<bar>x\<bar> < 2 powi (binade x + 1)"
proof -
  obtain a b where q: "quotient_of \<bar>x\<bar> = (a, b)" by (cases "quotient_of \<bar>x\<bar>")
  have b: "0 < b" using quotient_of_denom_pos [OF q] .
  have x: "\<bar>x\<bar> = of_int a / of_int b" using quotient_of_div [OF q] .
  have "0 < \<bar>x\<bar>" using assms by simp
  then have a: "0 < a" unfolding x using b by (simp add: zero_less_divide_iff)
  define la where "la = bit_length a"
  define lb where "lb = bit_length b"
  define k where "k = la - lb"
  from bit_length_bounds [OF a]
  have A: "2 ^ nat (la - 1) \<le> a" "a < 2 ^ nat la" "0 < la" by (simp_all add: la_def)
  from bit_length_bounds [OF b]
  have B: "2 ^ nat (lb - 1) \<le> b" "b < 2 ^ nat lb" "0 < lb" by (simp_all add: lb_def)
  have ra: "(2 :: rat) powi (la - 1) \<le> of_int a" "of_int a < (2 :: rat) powi la"
    using A by (simp_all add: two_powi_le_of_int of_int_less_two_powi)
  have rb: "(2 :: rat) powi (lb - 1) \<le> of_int b" "of_int b < (2 :: rat) powi lb"
    using B by (simp_all add: two_powi_le_of_int of_int_less_two_powi)
  have bpos: "(0 :: rat) < of_int b" using b by simp
  have up: "\<bar>x\<bar> < 2 powi (k + 1)"
  proof -
    have "of_int a < (2 :: rat) powi (k + 1) * 2 powi (lb - 1)"
      using ra(2) by (simp add: k_def flip: power_int_add)
    also have "\<dots> \<le> 2 powi (k + 1) * of_int b"
      using rb(1) by (simp add: mult_left_mono)
    finally show ?thesis unfolding x using bpos by (simp add: pos_divide_less_eq)
  qed
  have lo: "2 powi (k - 1) \<le> \<bar>x\<bar>"
  proof -
    have "(2 :: rat) powi (k - 1) * of_int b \<le> 2 powi (k - 1) * 2 powi lb"
      using rb(2) by (simp add: mult_left_mono)
    also have "\<dots> = 2 powi (la - 1)"
      by (simp add: k_def flip: power_int_add)
    also have "\<dots> \<le> of_int a" using ra(1) .
    finally show ?thesis unfolding x using bpos by (simp add: pos_le_divide_eq)
  qed
  have bin: "binade x = (if 2 powi k \<le> \<bar>x\<bar> then k else k - 1)"
    by (simp add: binade_def q k_def la_def lb_def Let_def)
  show ?thesis
  proof (cases "2 powi k \<le> \<bar>x\<bar>")
    case True
    with bin up show ?thesis by simp
  next
    case False
    with bin lo show ?thesis by simp
  qed
qed

lemma two_powi_less_exponent:
  assumes "(2 :: rat) powi j < 2 powi k"
  shows "j < k"
proof (rule ccontr)
  assume "\<not> j < k"
  then have "k \<le> j" by simp
  then have "(2 :: rat) powi k \<le> 2 powi j" by (rule power_int_increasing) simp
  with assms show False by simp
qed

lemma binade_unique:
  assumes "2 powi k \<le> \<bar>x\<bar>" and "\<bar>x\<bar> < 2 powi (k + 1)"
  shows "binade x = k"
proof -
  have nz: "x \<noteq> 0" using powi_positive_nonzero [OF assms(1)] .
  note r = binade_range [OF nz]
  have "(2 :: rat) powi binade x < 2 powi (k + 1)" using r assms(2) by linarith
  then have 1: "binade x < k + 1" by (rule two_powi_less_exponent)
  have "(2 :: rat) powi k < 2 powi (binade x + 1)" using r assms(1) by linarith
  then have 2: "k < binade x + 1" by (rule two_powi_less_exponent)
  from 1 2 show ?thesis by simp
qed

text \<open>
  Hence a double can be computed with the exponent given: if \<open>|x| / 2^e\<close> lies between
  \<open>2^52\<close> and \<open>2^53\<close>, the double of \<open>x\<close> is that quotient rounded, times \<open>2^e\<close>.
\<close>

lemma double_at_exponent:
  assumes "2 ^ 52 \<le> \<bar>x\<bar> / 2 powi e" and "\<bar>x\<bar> / 2 powi e < 2 ^ 53"
  shows "double x = of_int (round_half_even (x / 2 powi e)) * 2 powi e"
proof -
  have p: "(0 :: rat) < 2 powi e" by simp
  have a: "2 powi (e + 52) \<le> \<bar>x\<bar>"
    using assms(1) p by (simp add: pos_le_divide_eq power_int_add mult.commute)
  have b: "\<bar>x\<bar> < 2 powi (e + 52 + 1)"
    using assms(2) p by (simp add: pos_divide_less_eq power_int_add mult.commute)
  have k: "binade x = e + 52" using binade_unique [OF a b] .
  have "x \<noteq> 0" using powi_positive_nonzero [OF a] .
  then show ?thesis by (simp add: double_def k)
qed

text \<open>The result is within half a unit in the last place of the exact value.\<close>

lemma round_half_even_near: "\<bar>of_int (round_half_even y) - y\<bar> \<le> 1 / 2"
proof -
  define f where "f = \<lfloor>y\<rfloor>"
  define r where "r = y - of_int f"
  have r: "0 \<le> r" "r < 1" unfolding r_def f_def by linarith+
  have y: "y = of_int f + r" unfolding r_def by simp
  have "round_half_even y = (if r < 1 / 2 then f else if 1 / 2 < r then f + 1
      else if even f then f else f + 1)"
    by (simp add: round_half_even_def Let_def f_def r_def)
  then show ?thesis using r unfolding y by (auto simp: abs_if)
qed

lemma double_nearest:
  assumes "x \<noteq> 0"
  shows "\<bar>double x - x\<bar> \<le> 2 powi (binade x - 53)"
proof -
  define e where "e = binade x - 52"
  define y where "y = x / 2 powi e"
  have p: "(0 :: rat) < 2 powi e" by simp
  have x: "x = y * 2 powi e" unfolding y_def using p by simp
  have d: "double x = of_int (round_half_even y) * 2 powi e"
    using assms by (simp add: double_def e_def y_def Let_def)
  have "(of_int (round_half_even y) - y) * 2 powi e =
      of_int (round_half_even y) * 2 powi e - y * 2 powi e"
    by (simp add: algebra_simps)
  also have "\<dots> = double x - x" using d x by simp
  finally have "double x - x = (of_int (round_half_even y) - y) * 2 powi e" by simp
  then have "\<bar>double x - x\<bar> = \<bar>of_int (round_half_even y) - y\<bar> * 2 powi e"
    using p by (simp add: abs_mult)
  also have "\<dots> \<le> (1 / 2) * 2 powi e"
    using round_half_even_near [of y] p by (simp add: mult_right_mono)
  also have "\<dots> = 2 powi (binade x - 53)"
    by (simp add: e_def power_int_diff)
  finally show ?thesis .
qed

lemma floor_rat_numeral:
  "\<lfloor>numeral a / numeral b :: rat\<rfloor> = numeral a div numeral b"
  using floor_divide_of_int_eq [of "numeral a" "numeral b", where 'a = rat] by simp

lemma js_div_23_40: "js_div 23 40 = 2589569785738035 / 4503599627370496"
proof -
  have "double (23 / 40) =
      of_int (round_half_even ((23 / 40) / 2 powi (- 53))) * 2 powi (- 53)"
    by (rule double_at_exponent) simp_all
  also have "round_half_even ((23 / 40) / 2 powi (- 53)) = 5179139571476070"
    by (simp add: round_half_even_def Let_def floor_rat_numeral)
  finally show ?thesis by (simp add: js_div_def)
qed

lemma js_mul_23_40:
  "js_mul (2589569785738035 / 4503599627370496) 100 = 8092405580431359 / 140737488355328"
proof -
  let ?x = "2589569785738035 / 4503599627370496 * (100 :: rat)"
  have "double ?x = of_int (round_half_even (?x / 2 powi (- 47))) * 2 powi (- 47)"
    by (rule double_at_exponent) simp_all
  also have "round_half_even (?x / 2 powi (- 47)) = 8092405580431359"
    by (simp add: round_half_even_def Let_def floor_rat_numeral)
  finally show ?thesis by (simp add: js_mul_def)
qed

text \<open>The two results that the specification gives as examples are displayed as it says.\<close>

lemma js_div_7_10: "js_div 7 10 = 3152519739159347 / 4503599627370496"
proof -
  have "double (7 / 10) =
      of_int (round_half_even ((7 / 10) / 2 powi (- 53))) * 2 powi (- 53)"
    by (rule double_at_exponent) simp_all
  also have "round_half_even ((7 / 10) / 2 powi (- 53)) = 6305039478318694"
    by (simp add: round_half_even_def Let_def floor_rat_numeral)
  finally show ?thesis by (simp add: js_div_def)
qed

lemma js_mul_7_10: "js_mul (3152519739159347 / 4503599627370496) 100 = 70"
proof -
  let ?x = "3152519739159347 / 4503599627370496 * (100 :: rat)"
  have "double ?x = of_int (round_half_even (?x / 2 powi (- 46))) * 2 powi (- 46)"
    by (rule double_at_exponent) simp_all
  also have "round_half_even (?x / 2 powi (- 46)) = 4925812092436480"
    by (simp add: round_half_even_def Let_def floor_rat_numeral)
  finally show ?thesis by (simp add: js_mul_def)
qed

lemma js_div_1_3: "js_div 1 3 = 6004799503160661 / 18014398509481984"
proof -
  have "double (1 / 3) =
      of_int (round_half_even ((1 / 3) / 2 powi (- 54))) * 2 powi (- 54)"
    by (rule double_at_exponent) simp_all
  also have "round_half_even ((1 / 3) / 2 powi (- 54)) = 6004799503160661"
    by (simp add: round_half_even_def Let_def floor_rat_numeral)
  finally show ?thesis by (simp add: js_div_def)
qed

lemma js_mul_1_3:
  "js_mul (6004799503160661 / 18014398509481984) 100 = 2345624805922133 / 70368744177664"
proof -
  let ?x = "6004799503160661 / 18014398509481984 * (100 :: rat)"
  have "double ?x = of_int (round_half_even (?x / 2 powi (- 47))) * 2 powi (- 47)"
    by (rule double_at_exponent) simp_all
  also have "round_half_even (?x / 2 powi (- 47)) = 4691249611844266"
    by (simp add: round_half_even_def Let_def floor_rat_numeral)
  finally show ?thesis by (simp add: js_mul_def)
qed

lemma percentage_examples:
  "card_percentage (getScoreCard (entry ''ann'' 7 10 70)) = Some 70
   \<and> card_incorrect (getScoreCard (entry ''ann'' 7 10 70)) = 3
   \<and> percentage 1 3 = Some 33"
  by (simp add: getScoreCard_def entry_def incorrect_def percentage_def Math_round_def
      js_div_7_10 js_mul_7_10 js_div_1_3 js_mul_1_3 floor_rat_numeral)

lemma incorrect_count: "card_incorrect (getScoreCard a) = int (totalQuestions a) - int (correctAnswers a)"
  by (simp add: getScoreCard_def incorrect_def)

text \<open>
  C6 claims that for every result the displayed percentage is the exact quotient times
  100, rounded half up. The expression is evaluated in doubles: 23 correct answers out
  of 40 are exactly 57.5 percent, which rounds up to 58, but the double nearest to 23/40
  lies below it, its product with 100 rounds to a double just under 57.5, and
  \<^verbatim>\<open>Math.round\<close> displays 57. The incorrect count is as claimed.
\<close>

theorem percentage_below_exact_tie:
  "percentage 23 40 = Some 57 \<and> spec_percentage 23 40 = 58
   \<and> js_mul (js_div 23 40) 100 = 8092405580431359 / 140737488355328
   \<and> 8092405580431359 / 140737488355328 < (115 / 2 :: rat)
   \<and> incorrect 23 40 = 17"
  by (simp add: percentage_def spec_percentage_def incorrect_def Math_round_def
      js_div_23_40 js_mul_23_40 floor_rat_numeral)

end
